theory Spec2Isabelle
  imports Main "HOL-Library.Sublist"
begin

section \<open>The response sink that the middleware wraps\<close>

text \<open>
  \<^verbatim>\<open>http.Header\<close> is \<^verbatim>\<open>map[string][]string\<close>: a partial map from header names to
  value lists. A nil map and an empty map read alike, both are \<open>Map.empty\<close>.
\<close>

type_synonym header = "string \<rightharpoonup> string list"

text \<open>
  The wrapped \<^verbatim>\<open>http.ResponseWriter\<close> is an interface implemented outside the
  repository. It is modelled by what the repository can do to it: the header mapping
  returned by \<^verbatim>\<open>Header()\<close>, which callers mutate in place, and the sequence of
  method calls it has received. What its \<^verbatim>\<open>Write\<close> and \<^verbatim>\<open>Hijack\<close> return is the
  sink's own business, so those answers are fields of the sink (the answer to a write
  may depend on the header mapping and on every call received so far). The optional
  interfaces \<^verbatim>\<open>http.Flusher\<close>, \<^verbatim>\<open>http.Hijacker\<close> and \<^verbatim>\<open>http.CloseNotifier\<close> are
  flags; \<open>typeName\<close> is what \<^verbatim>\<open>%T\<close> prints for the sink.
\<close>

datatype sink_call =
    SWriteHeader int
  | SWrite string
  | SFlush
  | SHijack
  | SCloseNotify

record sink =
  sheader :: header
  calls :: "sink_call list"
  writeRet :: "header \<Rightarrow> sink_call list \<Rightarrow> string \<Rightarrow> int \<times> string option"
  hijackRet :: "string option"
  flusher :: bool
  hijacker :: bool
  closeNotifier :: bool
  typeName :: string

definition sink_WriteHeader :: "int \<Rightarrow> sink \<Rightarrow> sink" where
  "sink_WriteHeader c rw = rw\<lparr>calls := calls rw @ [SWriteHeader c]\<rparr>"

definition sink_Write :: "string \<Rightarrow> sink \<Rightarrow> (int \<times> string option) \<times> sink" where
  "sink_Write buf rw =
     (writeRet rw (sheader rw) (calls rw) buf, rw\<lparr>calls := calls rw @ [SWrite buf]\<rparr>)"

definition sink_Flush :: "sink \<Rightarrow> sink" where
  "sink_Flush rw = rw\<lparr>calls := calls rw @ [SFlush]\<rparr>"

definition sink_Hijack :: "sink \<Rightarrow> string option \<times> sink" where
  "sink_Hijack rw = (hijackRet rw, rw\<lparr>calls := calls rw @ [SHijack]\<rparr>)"

definition sink_CloseNotify :: "sink \<Rightarrow> sink" where
  "sink_CloseNotify rw = rw\<lparr>calls := calls rw @ [SCloseNotify]\<rparr>"

text \<open>
  \<^verbatim>\<open>Header.Set(key, value)\<close> replaces the values of the key by the single value. The
  keys the repository sets (\<^verbatim>\<open>Location\<close>, and those of \<^verbatim>\<open>http.Error\<close>) are already
  in canonical form, so the canonicalisation of the key is the identity on them.
\<close>

definition Header_Set :: "header \<Rightarrow> string \<Rightarrow> string \<Rightarrow> header" where
  "Header_Set h key v = h(key \<mapsto> [v])"

section \<open>codeCatcher\<close>

text \<open>
  \<^verbatim>\<open>types.HTTPCodeRanges\<close> is declared outside the given sources as \<^verbatim>\<open>[][2]int\<close>;
  \<^verbatim>\<open>WriteHeader\<close> reads \<^verbatim>\<open>block[0]\<close> and \<^verbatim>\<open>block[1]\<close> of each element. A block
  is a pair of integers here. Status codes are only compared and printed, never
  computed with, so Go's \<^verbatim>\<open>int\<close> is \<open>int\<close>.
\<close>

type_synonym HTTPCodeRanges = "(int \<times> int) list"

record codeCatcher =
  headerMap :: header
  code :: int
  httpCodeRanges :: HTTPCodeRanges
  caughtFilteredCode :: bool
  responseWriter :: sink
  headersSent :: bool

text \<open>\<^verbatim>\<open>http.StatusOK\<close>, \<^verbatim>\<open>http.StatusFound\<close>, \<^verbatim>\<open>http.StatusTemporaryRedirect\<close>,
  \<^verbatim>\<open>http.StatusInternalServerError\<close>.\<close>

definition StatusOK :: int where "StatusOK = 200"
definition StatusFound :: int where "StatusFound = 302"
definition StatusTemporaryRedirect :: int where "StatusTemporaryRedirect = 307"
definition StatusInternalServerError :: int where "StatusInternalServerError = 500"

text \<open>
  \<^verbatim>\<open>newCodeCatcher\<close>: the two variants it returns share the same \<^verbatim>\<open>codeCatcher\<close>;
  the variant with \<^verbatim>\<open>CloseNotify\<close> only adds that method (see \<open>cc_CloseNotify\<close>).
\<close>

definition newCodeCatcher :: "sink \<Rightarrow> HTTPCodeRanges \<Rightarrow> codeCatcher" where
  "newCodeCatcher rw ranges =
     \<lparr>headerMap = Map.empty, code = StatusOK, httpCodeRanges = ranges,
      caughtFilteredCode = False, responseWriter = rw, headersSent = False\<rparr>"

text \<open>
  \<^verbatim>\<open>Header()\<close>: makes the map when it is nil, returns it. The nil map and the map
  just made are both \<open>Map.empty\<close>, so the catcher comes back as it was. The caller
  mutates the map it gets in place (see \<open>step\<close>).
\<close>

definition cc_Header :: "codeCatcher \<Rightarrow> header \<times> codeCatcher" where
  "cc_Header cc = (headerMap cc, cc)"

definition getCode :: "codeCatcher \<Rightarrow> int" where
  "getCode cc = code cc"

definition isFilteredCode :: "codeCatcher \<Rightarrow> bool" where
  "isFilteredCode cc = caughtFilteredCode cc"

text \<open>
  \<^verbatim>\<open>copyHeaders(dst, src)\<close>: \<^verbatim>\<open>for k, vv := range src { dst[k] = append(dst[k], vv...) }\<close>.
  The keys of a map are distinct, so the order of the iteration does not show.
  \<open>hvalues h k\<close> is the read \<^verbatim>\<open>h[k]\<close>, which is nil (the empty slice) for a key that
  the map does not hold.
\<close>

definition hvalues :: "header \<Rightarrow> string \<Rightarrow> string list" where
  "hvalues h k = (case h k of None \<Rightarrow> [] | Some vv \<Rightarrow> vv)"

definition copyHeaders :: "header \<Rightarrow> header \<Rightarrow> header" where
  "copyHeaders dst src =
     (\<lambda>k. case src k of
            None \<Rightarrow> dst k
          | Some vv \<Rightarrow> Some (hvalues dst k @ vv))"

text \<open>The loop of \<^verbatim>\<open>WriteHeader\<close> over the blocks: true at the first block that holds
  the code.\<close>

fun inBlocks :: "HTTPCodeRanges \<Rightarrow> int \<Rightarrow> bool" where
  "inBlocks [] c = False"
| "inBlocks (block # rest) c =
     (if c \<ge> fst block \<and> c \<le> snd block then True else inBlocks rest c)"

definition cc_WriteHeader :: "int \<Rightarrow> codeCatcher \<Rightarrow> codeCatcher" where
  "cc_WriteHeader c cc =
     (if headersSent cc \<or> caughtFilteredCode cc then cc
      else
        let cc1 = cc\<lparr>code := c\<rparr> in
        if inBlocks (httpCodeRanges cc1) (code cc1) then cc1\<lparr>caughtFilteredCode := True\<rparr>
        else
          let (src, cc2) = cc_Header cc1;
              rw = responseWriter cc2;
              rw1 = rw\<lparr>sheader := copyHeaders (sheader rw) src\<rparr>;
              rw2 = sink_WriteHeader (code cc2) rw1
          in cc2\<lparr>responseWriter := rw2, headersSent := True\<rparr>)"

definition cc_Write :: "string \<Rightarrow> codeCatcher \<Rightarrow> (int \<times> string option) \<times> codeCatcher" where
  "cc_Write buf cc =
     (let cc1 = cc_WriteHeader (code cc) cc in
      if caughtFilteredCode cc1 then ((int (length buf), None), cc1)
      else
        let (res, rw1) = sink_Write buf (responseWriter cc1)
        in (res, cc1\<lparr>responseWriter := rw1\<rparr>))"

definition cc_Flush :: "codeCatcher \<Rightarrow> codeCatcher" where
  "cc_Flush cc =
     (let cc1 = cc_WriteHeader (code cc) cc in
      if flusher (responseWriter cc1)
      then cc1\<lparr>responseWriter := sink_Flush (responseWriter cc1)\<rparr>
      else cc1)"

definition cc_Hijack :: "codeCatcher \<Rightarrow> string option \<times> codeCatcher" where
  "cc_Hijack cc =
     (if hijacker (responseWriter cc)
      then
        let (res, rw1) = sink_Hijack (responseWriter cc)
        in (res, cc\<lparr>responseWriter := rw1\<rparr>)
      else (Some (typeName (responseWriter cc) @ '' is not a http.Hijacker''), cc))"

text \<open>
  \<^verbatim>\<open>CloseNotify\<close> exists only on the variant built for a sink that is a
  \<^verbatim>\<open>http.CloseNotifier\<close>; on the other variant there is no such method to call, and the
  model leaves the state as it is.
\<close>

definition cc_CloseNotify :: "codeCatcher \<Rightarrow> codeCatcher" where
  "cc_CloseNotify cc =
     (if closeNotifier (responseWriter cc)
      then cc\<lparr>responseWriter := sink_CloseNotify (responseWriter cc)\<rparr>
      else cc)"

section \<open>The upstream handler\<close>

text \<open>
  \<^verbatim>\<open>r.next.ServeHTTP(catcher, req)\<close> is arbitrary code that holds the catcher. All it
  can do to it is a sequence of calls of its methods; a mutation of the map that
  \<^verbatim>\<open>Header()\<close> returned is any function on header mappings (\<^verbatim>\<open>Set\<close>, \<^verbatim>\<open>Add\<close>,
  \<^verbatim>\<open>Del\<close>, a direct assignment). A handler that looks at what the calls return still
  makes one such sequence in each run, so a statement about all sequences is one about
  all handlers.
\<close>

datatype action =
    AHeader "header \<Rightarrow> header"
  | AWriteHeader int
  | AWrite string
  | AFlush
  | AHijack
  | ACloseNotify

fun step :: "action \<Rightarrow> codeCatcher \<Rightarrow> codeCatcher" where
  "step (AHeader f) cc = (let (h, cc1) = cc_Header cc in cc1\<lparr>headerMap := f h\<rparr>)"
| "step (AWriteHeader c) cc = cc_WriteHeader c cc"
| "step (AWrite buf) cc = snd (cc_Write buf cc)"
| "step AFlush cc = cc_Flush cc"
| "step AHijack cc = snd (cc_Hijack cc)"
| "step ACloseNotify cc = cc_CloseNotify cc"

definition run :: "action list \<Rightarrow> codeCatcher \<Rightarrow> codeCatcher" where
  "run acts cc = fold step acts cc"

section \<open>Library functions that ServeHTTP calls\<close>

text \<open>\<^verbatim>\<open>strconv.Itoa\<close>: the decimal digits of an integer, with a minus sign when it is
  negative.\<close>

definition digit :: "nat \<Rightarrow> char" where
  "digit n = char_of (48 + n)"

function natDigits :: "nat \<Rightarrow> string" where
  "natDigits n = (if n < 10 then [digit n] else natDigits (n div 10) @ [digit (n mod 10)])"
  by pat_completeness auto
termination
  by (relation "measure (\<lambda>n. n)") auto

declare natDigits.simps [simp del]

definition Itoa :: "int \<Rightarrow> string" where
  "Itoa i = (if i < 0 then CHR ''-'' # natDigits (nat (- i)) else natDigits (nat i))"

text \<open>
  \<^verbatim>\<open>strings.ReplaceAll(s, old, new)\<close>: every non-overlapping occurrence of \<open>old\<close>,
  found from the left, becomes \<open>new\<close>. ServeHTTP passes the patterns \<^verbatim>\<open>{status}\<close> and
  \<^verbatim>\<open>{url}\<close> only; for the empty pattern, which Go matches between the characters of
  \<open>s\<close>, this function leaves \<open>s\<close> as it is and is not a model of the library.
\<close>

function ReplaceAll :: "string \<Rightarrow> string \<Rightarrow> string \<Rightarrow> string" where
  "ReplaceAll [] old new = []"
| "ReplaceAll (c # cs) old new =
     (if old \<noteq> [] \<and> prefix old (c # cs)
      then new @ ReplaceAll (drop (length old) (c # cs)) old new
      else c # ReplaceAll cs old new)"
  by pat_completeness auto
termination
  by (relation "measure (\<lambda>(s, old, new). length s)") auto

text \<open>
  \<^verbatim>\<open>url.QueryEscape\<close>: letters, digits and \<^verbatim>\<open>-_.~\<close> stay, a space becomes \<^verbatim>\<open>+\<close>, every
  other byte becomes \<^verbatim>\<open>%\<close> and its two upper-case hexadecimal digits.
\<close>

definition shouldEscape :: "char \<Rightarrow> bool" where
  "shouldEscape c =
     (let n = (of_char c :: nat) in
      \<not> ((97 \<le> n \<and> n \<le> 122) \<or> (65 \<le> n \<and> n \<le> 90) \<or> (48 \<le> n \<and> n \<le> 57)
         \<or> c \<in> set ''-_.~''))"

definition upperhex :: string where
  "upperhex = ''0123456789ABCDEF''"

definition escapeByte :: "char \<Rightarrow> string" where
  "escapeByte c =
     (if c = CHR '' '' then ''+''
      else if shouldEscape c
      then [CHR ''%'', upperhex ! ((of_char c :: nat) div 16), upperhex ! ((of_char c :: nat) mod 16)]
      else [c])"

definition QueryEscape :: "string \<Rightarrow> string" where
  "QueryEscape s = concat (map escapeByte s)"

text \<open>\<^verbatim>\<open>http.StatusText\<close>: the reason phrase of a status code, the empty string for a
  code the table does not hold.\<close>

definition statusText :: "(int \<times> string) list" where
  "statusText =
     [(100, ''Continue''), (101, ''Switching Protocols''), (102, ''Processing''),
      (103, ''Early Hints''),
      (200, ''OK''), (201, ''Created''), (202, ''Accepted''),
      (203, ''Non-Authoritative Information''), (204, ''No Content''),
      (205, ''Reset Content''), (206, ''Partial Content''), (207, ''Multi-Status''),
      (208, ''Already Reported''), (226, ''IM Used''),
      (300, ''Multiple Choices''), (301, ''Moved Permanently''), (302, ''Found''),
      (303, ''See Other''), (304, ''Not Modified''), (305, ''Use Proxy''),
      (307, ''Temporary Redirect''), (308, ''Permanent Redirect''),
      (400, ''Bad Request''), (401, ''Unauthorized''), (402, ''Payment Required''),
      (403, ''Forbidden''), (404, ''Not Found''), (405, ''Method Not Allowed''),
      (406, ''Not Acceptable''), (407, ''Proxy Authentication Required''),
      (408, ''Request Timeout''), (409, ''Conflict''), (410, ''Gone''),
      (411, ''Length Required''), (412, ''Precondition Failed''),
      (413, ''Request Entity Too Large''), (414, ''Request URI Too Long''),
      (415, ''Unsupported Media Type''), (416, ''Requested Range Not Satisfiable''),
      (417, ''Expectation Failed''), (418, ''I'' @ [CHR 0x27] @ ''m a teapot''),
      (421, ''Misdirected Request''), (422, ''Unprocessable Entity''), (423, ''Locked''),
      (424, ''Failed Dependency''), (425, ''Too Early''), (426, ''Upgrade Required''),
      (428, ''Precondition Required''), (429, ''Too Many Requests''),
      (431, ''Request Header Fields Too Large''),
      (451, ''Unavailable For Legal Reasons''),
      (500, ''Internal Server Error''), (501, ''Not Implemented''), (502, ''Bad Gateway''),
      (503, ''Service Unavailable''), (504, ''Gateway Timeout''),
      (505, ''HTTP Version Not Supported''), (506, ''Variant Also Negotiates''),
      (507, ''Insufficient Storage''), (508, ''Loop Detected''), (510, ''Not Extended''),
      (511, ''Network Authentication Required'')]"

definition StatusText :: "int \<Rightarrow> string" where
  "StatusText c = (case map_of statusText c of None \<Rightarrow> [] | Some s \<Rightarrow> s)"

text \<open>
  \<^verbatim>\<open>http.Error(w, error, code)\<close> of the standard library: it sets the two headers,
  commits the code and prints the message with \<^verbatim>\<open>fmt.Fprintln\<close>, that is, the message
  and a line feed in one \<^verbatim>\<open>Write\<close>, whose result it drops. (Later releases of the
  library also delete \<^verbatim>\<open>Content-Length\<close> first; the calls made are the same.)
\<close>

definition http_Error :: "sink \<Rightarrow> string \<Rightarrow> int \<Rightarrow> sink" where
  "http_Error w err c =
     (let w1 = w\<lparr>sheader := Header_Set (sheader w) ''Content-Type'' ''text/plain; charset=utf-8''\<rparr>;
          w2 = w1\<lparr>sheader := Header_Set (sheader w1) ''X-Content-Type-Options'' ''nosniff''\<rparr>;
          w3 = sink_WriteHeader c w2
      in snd (sink_Write (err @ [CHR 0x0A]) w3))"

section \<open>redirectStatus\<close>

text \<open>
  Of the request, ServeHTTP reads \<^verbatim>\<open>req.Method\<close> and \<^verbatim>\<open>req.URL.String()\<close>; \<open>URLString\<close>
  is that string. The handler \<^verbatim>\<open>next\<close> is the sequence of calls it makes on the catcher it
  is given, for each request.
\<close>

record request =
  Method :: string
  URLString :: string

record redirectStatus =
  name :: string
  next_handler :: "request \<Rightarrow> action list"
  codeRanges :: HTTPCodeRanges
  to :: string

definition MethodGet :: string where
  "MethodGet = ''GET''"

text \<open>The Location value that ServeHTTP computes from the template.\<close>

definition target :: "string \<Rightarrow> int \<Rightarrow> request \<Rightarrow> string" where
  "target tmpl c req =
     (if length tmpl > 0
      then ReplaceAll (ReplaceAll tmpl ''{status}'' (Itoa c)) ''{url}'' (QueryEscape (URLString req))
      else [])"

definition redirectCode :: "request \<Rightarrow> int" where
  "redirectCode req = (if Method req \<noteq> MethodGet then StatusTemporaryRedirect else StatusFound)"

text \<open>
  \<^verbatim>\<open>ServeHTTP(rw, req)\<close>: the catcher's \<^verbatim>\<open>responseWriter\<close> is \<^verbatim>\<open>rw\<close> itself, so what the
  handler did to the sink through the catcher is the sink the function goes on with. The
  result is the sink as ServeHTTP leaves it.
\<close>

definition ServeHTTP :: "redirectStatus \<Rightarrow> sink \<Rightarrow> request \<Rightarrow> sink" where
  "ServeHTTP r rw req =
     (let catcher = run (next_handler r req) (newCodeCatcher rw (codeRanges r));
          rw1 = responseWriter catcher
      in if \<not> isFilteredCode catcher then rw1
         else
           let c = getCode catcher;
               loc = target (to r) c req;
               rw2 = rw1\<lparr>sheader := Header_Set (sheader rw1) ''Location'' loc\<rparr>;
               status = redirectCode req;
               rw3 = sink_WriteHeader status rw2;
               (res, rw4) = sink_Write (StatusText status) rw3
           in case snd res of
                None \<Rightarrow> rw4
              | Some e \<Rightarrow> http_Error rw4 e StatusInternalServerError)"

section \<open>Notions of the specification\<close>

text \<open>
  The three states of the interceptor, read off the two flags of the catcher:
  suppressed once a watched code was caught, passing through once the headers were sent
  to the sink, open before.
\<close>

datatype InterceptionState = Open | PassThrough | Suppressed

definition stateOf :: "codeCatcher \<Rightarrow> InterceptionState" where
  "stateOf cc =
     (if caughtFilteredCode cc then Suppressed
      else if headersSent cc then PassThrough else Open)"

text \<open>The calls of the handler that commit a status: the explicit one, and a body write
  or a flush, which commit implicitly.\<close>

fun commits :: "action \<Rightarrow> bool" where
  "commits (AWriteHeader c) = True"
| "commits (AWrite buf) = True"
| "commits AFlush = True"
| "commits a = False"

fun explicitCommit :: "action \<Rightarrow> bool" where
  "explicitCommit (AWriteHeader c) = True"
| "explicitCommit a = False"

text \<open>The code a committing call carries: its argument, or the code captured so far.\<close>

fun carried :: "action \<Rightarrow> codeCatcher \<Rightarrow> int" where
  "carried (AWriteHeader c) cc = c"
| "carried a cc = code cc"

text \<open>What a call of the handler does to the map that \<^verbatim>\<open>Header()\<close> gave it.\<close>

fun headerEffect :: "action \<Rightarrow> header \<Rightarrow> header" where
  "headerEffect (AHeader f) h = f h"
| "headerEffect a h = h"

fun isStatus :: "sink_call \<Rightarrow> bool" where
  "isStatus (SWriteHeader c) = True"
| "isStatus c = False"

fun isBody :: "sink_call \<Rightarrow> bool" where
  "isBody (SWrite buf) = True"
| "isBody c = False"

text \<open>The status commits, and the status commits and body writes, that a sink has
  received, in order.\<close>

definition statusCalls :: "sink \<Rightarrow> sink_call list" where
  "statusCalls rw = filter isStatus (calls rw)"

definition responseCalls :: "sink \<Rightarrow> sink_call list" where
  "responseCalls rw = filter (\<lambda>c. isStatus c \<or> isBody c) (calls rw)"

text \<open>The catcher as the handler leaves it, and the sink at the moment ServeHTTP writes
  the body of the redirect (the Location header set, the status committed).\<close>

definition afterHandler :: "redirectStatus \<Rightarrow> sink \<Rightarrow> request \<Rightarrow> codeCatcher" where
  "afterHandler r rw req = run (next_handler r req) (newCodeCatcher rw (codeRanges r))"

definition sinkAtBody :: "redirectStatus \<Rightarrow> sink \<Rightarrow> request \<Rightarrow> sink" where
  "sinkAtBody r rw req =
     (let catcher = afterHandler r rw req;
          rw1 = responseWriter catcher;
          rw2 = rw1\<lparr>sheader := Header_Set (sheader rw1) ''Location''
                  (target (to r) (getCode catcher) req)\<rparr>
      in sink_WriteHeader (redirectCode req) rw2)"

section \<open>Concrete sinks, handlers and requests\<close>

text \<open>
  A sink like the \<^verbatim>\<open>httptest.ResponseRecorder\<close> of the repository's test: it can
  flush, cannot be hijacked, and every write succeeds in full. \<open>brokenPipe\<close> is a sink
  whose writes fail.
\<close>

definition recorder :: sink where
  "recorder =
     \<lparr>sheader = Map.empty, calls = [],
      writeRet = (\<lambda>h cs buf. (int (length buf), None)),
      hijackRet = None, flusher = True, hijacker = False, closeNotifier = False,
      typeName = ''*httptest.ResponseRecorder''\<rparr>"

definition brokenPipe :: sink where
  "brokenPipe = recorder\<lparr>writeRet := (\<lambda>h cs buf. (0, Some ''broken pipe''))\<rparr>"

definition getRequest :: request where
  "getRequest = \<lparr>Method = ''GET'', URLString = ''http://a/b?c=d''\<rparr>"

definition postRequest :: request where
  "postRequest = \<lparr>Method = ''POST'', URLString = ''http://a/b?c=d''\<rparr>"

text \<open>The configuration of the repository's test (\<^verbatim>\<open>401-403\<close>, to \<^verbatim>\<open>http://localhost\<close>)
  with handlers that answer 401, and one with the template of the specification.\<close>

definition plugin :: "action list \<Rightarrow> redirectStatus" where
  "plugin acts =
     \<lparr>name = ''redirectstatus-plugin'', next_handler = (\<lambda>req. acts),
      codeRanges = [(401, 403)], to = ''http://localhost''\<rparr>"


definition setHeader :: "string \<Rightarrow> string \<Rightarrow> action" where
  "setHeader k v = AHeader (\<lambda>h. Header_Set h k v)"

section \<open>How one call changes the catcher\<close>

lemmas cc_defs = cc_WriteHeader_def cc_Write_def cc_Flush_def cc_Hijack_def cc_CloseNotify_def
  cc_Header_def sink_WriteHeader_def sink_Write_def sink_Flush_def sink_Hijack_def sink_CloseNotify_def

lemma inBlocks_iff: "inBlocks rs c \<longleftrightarrow> (\<exists>(lo, hi)\<in>set rs. lo \<le> c \<and> c \<le> hi)"
  by (induction rs) auto

lemma run_Nil: "run [] cc = cc"
  by (simp add: run_def)

lemma run_Cons: "run (a # as) cc = run as (step a cc)"
  by (simp add: run_def)

lemma run_append: "run (as @ bs) cc = run bs (run as cc)"
  by (simp add: run_def)

lemmas run_simps = run_Nil run_Cons run_append

lemma step_open_quiet:
  assumes "\<not> commits a" and "stateOf cc = Open"
  shows "stateOf (step a cc) = Open"
    and "code (step a cc) = code cc"
    and "httpCodeRanges (step a cc) = httpCodeRanges cc"
    and "headerMap (step a cc) = headerEffect a (headerMap cc)"
    and "sheader (responseWriter (step a cc)) = sheader (responseWriter cc)"
    and "responseCalls (responseWriter (step a cc)) = responseCalls (responseWriter cc)"
    and "statusCalls (responseWriter (step a cc)) = statusCalls (responseWriter cc)"
  using assms by (cases a; simp add: cc_defs stateOf_def responseCalls_def statusCalls_def Let_def split: if_splits)+

lemma step_open_commit:
  assumes "commits a" and "stateOf cc = Open"
  shows "stateOf (step a cc) = (if inBlocks (httpCodeRanges cc) (carried a cc) then Suppressed else PassThrough)"
    and "code (step a cc) = carried a cc"
    and "httpCodeRanges (step a cc) = httpCodeRanges cc"
    and "headerMap (step a cc) = headerMap cc"
    and "sheader (responseWriter (step a cc)) = (if inBlocks (httpCodeRanges cc) (carried a cc) then sheader (responseWriter cc) else copyHeaders (sheader (responseWriter cc)) (headerMap cc))"
    and "statusCalls (responseWriter (step a cc)) = (if inBlocks (httpCodeRanges cc) (carried a cc) then statusCalls (responseWriter cc) else statusCalls (responseWriter cc) @ [SWriteHeader (carried a cc)])"
  using assms by (cases a; simp add: cc_defs stateOf_def statusCalls_def Let_def split: if_splits)+

lemma step_committed:
  assumes "stateOf cc \<noteq> Open"
  shows "stateOf (step a cc) = stateOf cc"
    and "code (step a cc) = code cc"
    and "httpCodeRanges (step a cc) = httpCodeRanges cc"
    and "headerMap (step a cc) = headerEffect a (headerMap cc)"
    and "sheader (responseWriter (step a cc)) = sheader (responseWriter cc)"
    and "statusCalls (responseWriter (step a cc)) = statusCalls (responseWriter cc)"
  using assms by (cases a; simp add: cc_defs stateOf_def statusCalls_def Let_def split: if_splits)+


lemma run_open_quiet:
  assumes "\<forall>a\<in>set pre. \<not> commits a" and "stateOf cc = Open"
  shows "stateOf (run pre cc) = Open \<and> code (run pre cc) = code cc
    \<and> httpCodeRanges (run pre cc) = httpCodeRanges cc
    \<and> headerMap (run pre cc) = fold headerEffect pre (headerMap cc)
    \<and> sheader (responseWriter (run pre cc)) = sheader (responseWriter cc)
    \<and> responseCalls (responseWriter (run pre cc)) = responseCalls (responseWriter cc)
    \<and> statusCalls (responseWriter (run pre cc)) = statusCalls (responseWriter cc)"
  using assms
proof (induction pre arbitrary: cc)
  case Nil
  then show ?case by (simp add: run_simps)
next
  case (Cons a pre)
  from Cons.prems have q: "\<not> commits a" and rest: "\<forall>b\<in>set pre. \<not> commits b" by simp_all
  note s = step_open_quiet [OF q Cons.prems(2)]
  from Cons.IH [OF rest s(1)] show ?case by (simp add: s run_simps)
qed

lemma run_committed:
  assumes "stateOf cc \<noteq> Open"
  shows "stateOf (run acts cc) = stateOf cc \<and> code (run acts cc) = code cc
    \<and> httpCodeRanges (run acts cc) = httpCodeRanges cc
    \<and> headerMap (run acts cc) = fold headerEffect acts (headerMap cc)
    \<and> sheader (responseWriter (run acts cc)) = sheader (responseWriter cc)
    \<and> statusCalls (responseWriter (run acts cc)) = statusCalls (responseWriter cc)"
  using assms
proof (induction acts arbitrary: cc)
  case Nil
  then show ?case by (simp add: run_simps)
next
  case (Cons a acts)
  note s = step_committed [OF Cons.prems, of a]
  from Cons.prems s(1) have "stateOf (step a cc) \<noteq> Open" by simp
  from Cons.IH [OF this] show ?case by (simp add: s run_simps)
qed

lemma new_open:
  "stateOf (newCodeCatcher rw rs) = Open" "code (newCodeCatcher rw rs) = 200"
  "httpCodeRanges (newCodeCatcher rw rs) = rs" "headerMap (newCodeCatcher rw rs) = Map.empty"
  "responseWriter (newCodeCatcher rw rs) = rw"
  by (simp_all add: newCodeCatcher_def stateOf_def StatusOK_def)

lemma stateOf_filtered: "isFilteredCode cc \<longleftrightarrow> stateOf cc = Suppressed"
  by (simp add: isFilteredCode_def stateOf_def)

section \<open>The commit decision\<close>

text \<open>
  C1. Let the handler make calls that commit nothing, then its first committing call,
  then any calls. The code \<open>C\<close> that the first commit carries is the argument of an
  explicit \<^verbatim>\<open>WriteHeader\<close>, or the code captured so far for a body write or a flush.
  The catcher ends suppressed (\<open>isFilteredCode\<close>) exactly when some configured block
  \<open>[lo, hi]\<close> has \<open>lo \<le> C \<le> hi\<close>; otherwise it ends passing through, and the status
  commits that the sink received are those it had before followed by the one commit of
  \<open>C\<close>.
\<close>

theorem first_commit_decides:
  assumes "\<forall>a\<in>set pre. \<not> commits a" and "commits a"
  shows "let cc0 = newCodeCatcher rw rs;
             C = carried a (run pre cc0);
             cc = run (pre @ a # post) cc0
         in (isFilteredCode cc \<longleftrightarrow> (\<exists>(lo, hi)\<in>set rs. lo \<le> C \<and> C \<le> hi))
          \<and> (isFilteredCode cc \<longrightarrow> stateOf cc = Suppressed)
          \<and> (\<not> isFilteredCode cc \<longrightarrow>
                stateOf cc = PassThrough
              \<and> statusCalls (responseWriter cc) = statusCalls rw @ [SWriteHeader C])"
proof -
  define cc0 where "cc0 = newCodeCatcher rw rs"
  define cc1 where "cc1 = run pre cc0"
  define cc2 where "cc2 = step a cc1"
  define C where "C = carried a cc1"
  have o: "stateOf cc0 = Open" by (simp add: cc0_def new_open)
  note p = run_open_quiet [OF assms(1) o, folded cc1_def]
  from p have o1: "stateOf cc1 = Open" by simp
  note c = step_open_commit [OF assms(2) o1, folded cc2_def C_def]
  have rs1: "httpCodeRanges cc1 = rs" using p by (simp add: cc0_def new_open)
  have st1: "statusCalls (responseWriter cc1) = statusCalls rw" using p by (simp add: cc0_def new_open)
  have n2: "stateOf cc2 \<noteq> Open" using c(1) by simp
  note r = run_committed [OF n2, of post]
  have fin: "run (pre @ a # post) cc0 = run post cc2" by (simp add: cc1_def cc2_def run_simps)
  have a1: "stateOf (run post cc2) = (if inBlocks rs C then Suppressed else PassThrough)"
    using r c(1) rs1 by simp
  have a2: "statusCalls (responseWriter (run post cc2)) =
      (if inBlocks rs C then statusCalls rw else statusCalls rw @ [SWriteHeader C])"
    using r c(6) rs1 st1 by simp
  show ?thesis
    unfolding Let_def cc0_def [symmetric] cc1_def [symmetric] C_def [symmetric] fin
    using a1 a2 by (simp add: stateOf_filtered inBlocks_iff)
qed

text \<open>C1 at the configuration of the repository's test: 401 is caught and nothing
  reaches the sink, 404 passes through with its body.\<close>

theorem first_commit_decides_witness:
  "isFilteredCode (run ([setHeader ''X-A'' ''1''] @ AWriteHeader 401 # [AWrite ''denied''])
      (newCodeCatcher recorder [(401, 403)]))
   \<and> calls (responseWriter (run ([setHeader ''X-A'' ''1''] @ AWriteHeader 401 # [AWrite ''denied''])
      (newCodeCatcher recorder [(401, 403)]))) = []
   \<and> calls (responseWriter (run ([setHeader ''X-A'' ''1''] @ AWriteHeader 404 # [AWrite ''missing''])
      (newCodeCatcher recorder [(401, 403)]))) = [SWriteHeader 404, SWrite ''missing'']"
proof -
  have h1: "\<forall>a\<in>set [setHeader ''X-A'' ''1'']. \<not> commits a" by (simp add: setHeader_def)
  have h2: "commits (AWriteHeader 401)" by simp
  note t = first_commit_decides [OF h1 h2, of recorder "[(401, 403)]" "[AWrite ''denied'']",
      unfolded Let_def]
  have "\<exists>(lo, hi)\<in>set [(401, 403)].
      lo \<le> carried (AWriteHeader 401) (run [setHeader ''X-A'' ''1''] (newCodeCatcher recorder [(401, 403)]))
      \<and> carried (AWriteHeader 401) (run [setHeader ''X-A'' ''1''] (newCodeCatcher recorder [(401, 403)])) \<le> hi"
    by simp
  with t have "isFilteredCode (run ([setHeader ''X-A'' ''1''] @ AWriteHeader 401 # [AWrite ''denied''])
      (newCodeCatcher recorder [(401, 403)]))"
    by blast
  moreover have "calls (responseWriter (run ([setHeader ''X-A'' ''1''] @ AWriteHeader 401 # [AWrite ''denied''])
      (newCodeCatcher recorder [(401, 403)]))) = []"
    by code_simp
  moreover have "calls (responseWriter (run ([setHeader ''X-A'' ''1''] @ AWriteHeader 404 # [AWrite ''missing''])
      (newCodeCatcher recorder [(401, 403)]))) = [SWriteHeader 404, SWrite ''missing'']"
    by code_simp
  ultimately show ?thesis by blast
qed

section \<open>Body writes\<close>

text \<open>
  C2. A body write on a catcher that passes through hands the very bytes to the sink
  in one \<^verbatim>\<open>Write\<close> and returns what the sink returned; on a suppressed catcher it
  returns the full length and no error, and the catcher, hence the sink, stays as it was.
  The same holds for the write that takes the decision itself: in every state the
  write first commits the captured code (which changes nothing once the decision is
  taken), the catcher is then passing through or suppressed, and the write forwards or
  drops the bytes by that state. For an open catcher this is spelt out: when the code
  is not watched the sink receives the status commit and then the very bytes, and its
  answer to that write comes back; when the code is watched the sink is untouched and
  the full length and no error come back.
\<close>

theorem Write_in_every_state:
  "(stateOf cc = PassThrough \<longrightarrow>
      cc_Write buf cc =
        (writeRet (responseWriter cc) (sheader (responseWriter cc)) (calls (responseWriter cc)) buf,
         cc\<lparr>responseWriter := (responseWriter cc)\<lparr>calls := calls (responseWriter cc) @ [SWrite buf]\<rparr>\<rparr>))
   \<and> (stateOf cc = Suppressed \<longrightarrow> cc_Write buf cc = ((int (length buf), None), cc))
   \<and> (let cc1 = cc_WriteHeader (code cc) cc
      in stateOf cc1 \<noteq> Open
       \<and> (stateOf cc \<noteq> Open \<longrightarrow> cc1 = cc)
       \<and> (stateOf cc1 = PassThrough \<longrightarrow>
            cc_Write buf cc =
              (writeRet (responseWriter cc1) (sheader (responseWriter cc1))
                 (calls (responseWriter cc1)) buf,
               cc1\<lparr>responseWriter :=
                 (responseWriter cc1)\<lparr>calls := calls (responseWriter cc1) @ [SWrite buf]\<rparr>\<rparr>))
       \<and> (stateOf cc1 = Suppressed \<longrightarrow> cc_Write buf cc = ((int (length buf), None), cc1)))
   \<and> (stateOf cc = Open \<and> \<not> inBlocks (httpCodeRanges cc) (code cc) \<longrightarrow>
        stateOf (snd (cc_Write buf cc)) = PassThrough
      \<and> calls (responseWriter (snd (cc_Write buf cc)))
          = calls (responseWriter cc) @ [SWriteHeader (code cc), SWrite buf]
      \<and> fst (cc_Write buf cc)
          = writeRet (responseWriter cc) (copyHeaders (sheader (responseWriter cc)) (headerMap cc))
              (calls (responseWriter cc) @ [SWriteHeader (code cc)]) buf)
   \<and> (stateOf cc = Open \<and> inBlocks (httpCodeRanges cc) (code cc) \<longrightarrow>
        stateOf (snd (cc_Write buf cc)) = Suppressed
      \<and> responseWriter (snd (cc_Write buf cc)) = responseWriter cc
      \<and> fst (cc_Write buf cc) = (int (length buf), None))"
proof -
  have a: "stateOf cc = PassThrough \<longrightarrow>
      cc_Write buf cc =
        (writeRet (responseWriter cc) (sheader (responseWriter cc)) (calls (responseWriter cc)) buf,
         cc\<lparr>responseWriter := (responseWriter cc)\<lparr>calls := calls (responseWriter cc) @ [SWrite buf]\<rparr>\<rparr>)"
    by (simp add: cc_defs stateOf_def split: if_splits)
  have b: "stateOf cc = Suppressed \<longrightarrow> cc_Write buf cc = ((int (length buf), None), cc)"
    by (simp add: cc_defs stateOf_def split: if_splits)
  have c1: "stateOf (cc_WriteHeader (code cc) cc) \<noteq> Open"
    by (simp add: cc_defs stateOf_def Let_def)
  have c2: "stateOf cc \<noteq> Open \<longrightarrow> cc_WriteHeader (code cc) cc = cc"
    by (simp add: cc_WriteHeader_def stateOf_def split: if_splits)
  have c3: "stateOf (cc_WriteHeader (code cc) cc) = PassThrough \<longrightarrow>
      cc_Write buf cc =
        (writeRet (responseWriter (cc_WriteHeader (code cc) cc))
           (sheader (responseWriter (cc_WriteHeader (code cc) cc)))
           (calls (responseWriter (cc_WriteHeader (code cc) cc))) buf,
         (cc_WriteHeader (code cc) cc)\<lparr>responseWriter :=
           (responseWriter (cc_WriteHeader (code cc) cc))
             \<lparr>calls := calls (responseWriter (cc_WriteHeader (code cc) cc)) @ [SWrite buf]\<rparr>\<rparr>)"
    by (simp add: cc_Write_def sink_Write_def stateOf_def Let_def split: if_splits)
  have c4: "stateOf (cc_WriteHeader (code cc) cc) = Suppressed \<longrightarrow>
      cc_Write buf cc = ((int (length buf), None), cc_WriteHeader (code cc) cc)"
    by (simp add: cc_Write_def stateOf_def Let_def split: if_splits)
  have d: "stateOf cc = Open \<and> \<not> inBlocks (httpCodeRanges cc) (code cc) \<longrightarrow>
        stateOf (snd (cc_Write buf cc)) = PassThrough
      \<and> calls (responseWriter (snd (cc_Write buf cc)))
          = calls (responseWriter cc) @ [SWriteHeader (code cc), SWrite buf]
      \<and> fst (cc_Write buf cc)
          = writeRet (responseWriter cc) (copyHeaders (sheader (responseWriter cc)) (headerMap cc))
              (calls (responseWriter cc) @ [SWriteHeader (code cc)]) buf"
    by (simp add: cc_defs stateOf_def Let_def split: if_splits)
  have e: "stateOf cc = Open \<and> inBlocks (httpCodeRanges cc) (code cc) \<longrightarrow>
        stateOf (snd (cc_Write buf cc)) = Suppressed
      \<and> responseWriter (snd (cc_Write buf cc)) = responseWriter cc
      \<and> fst (cc_Write buf cc) = (int (length buf), None)"
    by (simp add: cc_defs stateOf_def Let_def split: if_splits)
  show ?thesis
    unfolding Let_def using a b c1 c2 c3 c4 d e by blast
qed

text \<open>C2 at a suppressed catcher, at one that passes through to a sink whose writes
  fail (the sink's count and error come back), and at a first write on a fresh catcher,
  with 200 not watched and with 200 watched.\<close>

theorem Write_in_every_state_witness:
  "fst (cc_Write ''denied'' (run [AWriteHeader 401] (newCodeCatcher recorder [(401, 403)]))) = (6, None)
   \<and> calls (responseWriter (snd (cc_Write ''denied''
        (run [AWriteHeader 401] (newCodeCatcher recorder [(401, 403)]))))) = []
   \<and> fst (cc_Write ''missing'' (run [AWriteHeader 404] (newCodeCatcher brokenPipe [(401, 403)])))
       = (0, Some ''broken pipe'')
   \<and> calls (responseWriter (snd (cc_Write ''missing''
        (run [AWriteHeader 404] (newCodeCatcher brokenPipe [(401, 403)])))))
       = [SWriteHeader 404, SWrite ''missing'']
   \<and> calls (responseWriter (snd (cc_Write ''hello'' (newCodeCatcher recorder [(401, 403)]))))
       = [SWriteHeader 200, SWrite ''hello'']
   \<and> fst (cc_Write ''hello'' (newCodeCatcher recorder [(401, 403)])) = (5, None)
   \<and> calls (responseWriter (snd (cc_Write ''hello'' (newCodeCatcher recorder [(200, 299)])))) = []
   \<and> fst (cc_Write ''hello'' (newCodeCatcher recorder [(200, 299)])) = (5, None)"
proof -
  have s: "stateOf (run [AWriteHeader 401] (newCodeCatcher recorder [(401, 403)])) = Suppressed"
    by code_simp
  have p: "stateOf (run [AWriteHeader 404] (newCodeCatcher brokenPipe [(401, 403)])) = PassThrough"
    by code_simp
  have c: "calls (responseWriter (run [AWriteHeader 401] (newCodeCatcher recorder [(401, 403)]))) = []"
    by code_simp
  have d: "calls (responseWriter (run [AWriteHeader 404] (newCodeCatcher brokenPipe [(401, 403)])))
      = [SWriteHeader 404]"
    by code_simp
  have w: "writeRet (responseWriter (run [AWriteHeader 404] (newCodeCatcher brokenPipe [(401, 403)])))
      = (\<lambda>h cs buf. (0, Some ''broken pipe''))"
    by (simp add: run_simps cc_defs newCodeCatcher_def brokenPipe_def recorder_def Let_def)
  from Write_in_every_state [of "run [AWriteHeader 401] (newCodeCatcher recorder [(401, 403)])" "''denied''"] s
  have a: "cc_Write ''denied'' (run [AWriteHeader 401] (newCodeCatcher recorder [(401, 403)]))
      = ((int (length ''denied''), None), run [AWriteHeader 401] (newCodeCatcher recorder [(401, 403)]))"
    by blast
  from Write_in_every_state [of "run [AWriteHeader 404] (newCodeCatcher brokenPipe [(401, 403)])" "''missing''"] p
  have b: "cc_Write ''missing'' (run [AWriteHeader 404] (newCodeCatcher brokenPipe [(401, 403)]))
      = (writeRet (responseWriter (run [AWriteHeader 404] (newCodeCatcher brokenPipe [(401, 403)])))
           (sheader (responseWriter (run [AWriteHeader 404] (newCodeCatcher brokenPipe [(401, 403)]))))
           (calls (responseWriter (run [AWriteHeader 404] (newCodeCatcher brokenPipe [(401, 403)]))))
           ''missing'',
         (run [AWriteHeader 404] (newCodeCatcher brokenPipe [(401, 403)]))
           \<lparr>responseWriter := (responseWriter (run [AWriteHeader 404] (newCodeCatcher brokenPipe [(401, 403)])))
              \<lparr>calls := calls (responseWriter (run [AWriteHeader 404] (newCodeCatcher brokenPipe [(401, 403)])))
                 @ [SWrite ''missing'']\<rparr>\<rparr>)"
    by blast
  have o1: "stateOf (newCodeCatcher recorder [(401, 403)]) = Open
      \<and> \<not> inBlocks (httpCodeRanges (newCodeCatcher recorder [(401, 403)]))
            (code (newCodeCatcher recorder [(401, 403)]))"
    by (simp add: new_open)
  from Write_in_every_state [of "newCodeCatcher recorder [(401, 403)]" "''hello''"] o1
  have f: "calls (responseWriter (snd (cc_Write ''hello'' (newCodeCatcher recorder [(401, 403)]))))
      = calls (responseWriter (newCodeCatcher recorder [(401, 403)]))
          @ [SWriteHeader (code (newCodeCatcher recorder [(401, 403)])), SWrite ''hello'']"
    by blast
  have o2: "stateOf (newCodeCatcher recorder [(200, 299)]) = Open
      \<and> inBlocks (httpCodeRanges (newCodeCatcher recorder [(200, 299)]))
            (code (newCodeCatcher recorder [(200, 299)]))"
    by (simp add: new_open)
  from Write_in_every_state [of "newCodeCatcher recorder [(200, 299)]" "''hello''"] o2
  have g: "responseWriter (snd (cc_Write ''hello'' (newCodeCatcher recorder [(200, 299)])))
        = responseWriter (newCodeCatcher recorder [(200, 299)])
      \<and> fst (cc_Write ''hello'' (newCodeCatcher recorder [(200, 299)])) = (int (length ''hello''), None)"
    by blast
  have h: "fst (cc_Write ''hello'' (newCodeCatcher recorder [(401, 403)])) = (5, None)"
    by code_simp
  have e0: "calls (responseWriter (newCodeCatcher recorder [(401, 403)])) = []"
    "calls (responseWriter (newCodeCatcher recorder [(200, 299)])) = []"
    "code (newCodeCatcher recorder [(401, 403)]) = 200"
    by (simp_all add: new_open recorder_def)
  have r1: "fst (cc_Write ''denied'' (run [AWriteHeader 401] (newCodeCatcher recorder [(401, 403)])))
      = (6, None)"
    by (simp add: a)
  have r2: "calls (responseWriter (snd (cc_Write ''denied''
        (run [AWriteHeader 401] (newCodeCatcher recorder [(401, 403)]))))) = []"
    by (simp add: a c)
  have r3: "fst (cc_Write ''missing'' (run [AWriteHeader 404] (newCodeCatcher brokenPipe [(401, 403)])))
       = (0, Some ''broken pipe'')"
    by (simp add: b w)
  have r4: "calls (responseWriter (snd (cc_Write ''missing''
        (run [AWriteHeader 404] (newCodeCatcher brokenPipe [(401, 403)])))))
       = [SWriteHeader 404, SWrite ''missing'']"
    by (simp add: b d)
  have r5: "calls (responseWriter (snd (cc_Write ''hello'' (newCodeCatcher recorder [(401, 403)]))))
       = [SWriteHeader 200, SWrite ''hello'']"
    unfolding f e0 by simp
  from g have "calls (responseWriter (snd (cc_Write ''hello'' (newCodeCatcher recorder [(200, 299)]))))
      = calls (responseWriter (newCodeCatcher recorder [(200, 299)]))"
    by simp
  then have r7: "calls (responseWriter (snd (cc_Write ''hello'' (newCodeCatcher recorder [(200, 299)])))) = []"
    by (simp only: e0)
  from g have r8: "fst (cc_Write ''hello'' (newCodeCatcher recorder [(200, 299)])) = (5, None)"
    by simp
  from r1 r2 r3 r4 r5 h r7 r8 show ?thesis
    by blast
qed

section \<open>First commit wins\<close>

lemma committed_WriteHeader: "stateOf cc \<noteq> Open \<Longrightarrow> cc_WriteHeader c cc = cc"
  by (simp add: cc_WriteHeader_def stateOf_def split: if_splits)

text \<open>
  C5. After the first commit, explicit or implicit, a later \<^verbatim>\<open>WriteHeader(c')\<close> on
  the catcher changes nothing: the call returns the state it was given, the captured
  code is still the code of the first commit, the decision is the one taken for that
  code, and the whole run ends in the state it ends in without that call.
\<close>

theorem later_WriteHeader_noop:
  assumes "\<forall>a\<in>set pre. \<not> commits a" and "commits a"
  shows "let cc0 = newCodeCatcher rw rs;
             C = carried a (run pre cc0);
             cc = run (pre @ a # mid) cc0
         in cc_WriteHeader c' cc = cc
          \<and> getCode cc = C
          \<and> (isFilteredCode cc \<longleftrightarrow> inBlocks rs C)
          \<and> run (pre @ a # mid @ AWriteHeader c' # post) cc0 = run (pre @ a # mid @ post) cc0
          \<and> getCode (run (pre @ a # mid @ AWriteHeader c' # post) cc0) = C"
proof -
  define cc0 where "cc0 = newCodeCatcher rw rs"
  define cc1 where "cc1 = run pre cc0"
  define cc2 where "cc2 = step a cc1"
  define C where "C = carried a cc1"
  have o: "stateOf cc0 = Open" by (simp add: cc0_def new_open)
  note p = run_open_quiet [OF assms(1) o, folded cc1_def]
  from p have o1: "stateOf cc1 = Open" by simp
  note c = step_open_commit [OF assms(2) o1, folded cc2_def C_def]
  have rs1: "httpCodeRanges cc1 = rs" using p by (simp add: cc0_def new_open)
  have n2: "stateOf cc2 \<noteq> Open" using c(1) by simp
  note m = run_committed [OF n2, of mid]
  have n3: "stateOf (run mid cc2) \<noteq> Open" using m n2 by simp
  note w = committed_WriteHeader [OF n3, of c']
  note q = run_committed [OF n3, of post]
  have e1: "run (pre @ a # mid) cc0 = run mid cc2" by (simp add: cc1_def cc2_def run_simps)
  have "run (pre @ a # mid @ AWriteHeader c' # post) cc0 = run post (cc_WriteHeader c' (run mid cc2))"
    by (simp add: cc1_def cc2_def run_simps)
  then have e2: "run (pre @ a # mid @ AWriteHeader c' # post) cc0 = run post (run mid cc2)"
    by (simp only: w)
  have e3: "run (pre @ a # mid @ post) cc0 = run post (run mid cc2)"
    by (simp add: cc1_def cc2_def run_simps)
  have g: "code (run mid cc2) = C" using m c(2) by simp
  have g': "code (run post (run mid cc2)) = C" using q g by simp
  have f: "stateOf (run mid cc2) = Suppressed \<longleftrightarrow> inBlocks rs C"
    using m c(1) rs1 by simp
  show ?thesis
    unfolding Let_def cc0_def [symmetric] cc1_def [symmetric] C_def [symmetric] e1 e2 e3
    using w g g' f by (simp add: getCode_def stateOf_filtered)
qed

text \<open>C5 at a handler that answers 404, writes, then tries 401.\<close>

theorem later_WriteHeader_noop_witness:
  "getCode (run ([] @ AWriteHeader 404 # [AWrite ''a''] @ AWriteHeader 401 # [AWrite ''b''])
      (newCodeCatcher recorder [(401, 403)])) = 404
   \<and> calls (responseWriter (run ([] @ AWriteHeader 404 # [AWrite ''a''] @ AWriteHeader 401 # [AWrite ''b''])
      (newCodeCatcher recorder [(401, 403)]))) = [SWriteHeader 404, SWrite ''a'', SWrite ''b'']"
proof -
  have h1: "\<forall>a\<in>set []. \<not> commits a" by simp
  have h2: "commits (AWriteHeader 404)" by simp
  note t = later_WriteHeader_noop [OF h1 h2, where c' = 401 and rw = recorder
      and rs = "[(401, 403)]" and mid = "[AWrite ''a'']" and post = "[AWrite ''b'']", unfolded Let_def]
  from t have "getCode (run ([] @ AWriteHeader 404 # [AWrite ''a''] @ AWriteHeader 401 # [AWrite ''b''])
      (newCodeCatcher recorder [(401, 403)]))
      = carried (AWriteHeader 404) (run [] (newCodeCatcher recorder [(401, 403)]))"
    by blast
  then have "getCode (run ([] @ AWriteHeader 404 # [AWrite ''a''] @ AWriteHeader 401 # [AWrite ''b''])
      (newCodeCatcher recorder [(401, 403)])) = 404"
    by simp
  moreover have "calls (responseWriter (run ([] @ AWriteHeader 404 # [AWrite ''a''] @ AWriteHeader 401 # [AWrite ''b''])
      (newCodeCatcher recorder [(401, 403)]))) = [SWriteHeader 404, SWrite ''a'', SWrite ''b'']"
    by code_simp
  ultimately show ?thesis by (rule conjI)
qed

section \<open>The default code\<close>

lemma step_default_code:
  assumes "\<not> explicitCommit a" and "code cc = 200"
    and "(stateOf cc = Open \<and> statusCalls (responseWriter cc) = S)
       \<or> (stateOf cc = (if inBlocks (httpCodeRanges cc) 200 then Suppressed else PassThrough)
          \<and> statusCalls (responseWriter cc) =
              (if inBlocks (httpCodeRanges cc) 200 then S else S @ [SWriteHeader 200]))"
  shows "code (step a cc) = 200"
    and "httpCodeRanges (step a cc) = httpCodeRanges cc"
    and "(stateOf (step a cc) = Open \<and> statusCalls (responseWriter (step a cc)) = S)
       \<or> (stateOf (step a cc) = (if inBlocks (httpCodeRanges cc) 200 then Suppressed else PassThrough)
          \<and> statusCalls (responseWriter (step a cc)) =
              (if inBlocks (httpCodeRanges cc) 200 then S else S @ [SWriteHeader 200]))"
proof -
  show "code (step a cc) = 200"
    using assms by (cases a; simp add: cc_defs stateOf_def Let_def split: if_splits)
  show "httpCodeRanges (step a cc) = httpCodeRanges cc"
    using assms by (cases a; simp add: cc_defs stateOf_def Let_def split: if_splits)
  show "(stateOf (step a cc) = Open \<and> statusCalls (responseWriter (step a cc)) = S)
       \<or> (stateOf (step a cc) = (if inBlocks (httpCodeRanges cc) 200 then Suppressed else PassThrough)
          \<and> statusCalls (responseWriter (step a cc)) =
              (if inBlocks (httpCodeRanges cc) 200 then S else S @ [SWriteHeader 200]))"
  proof (cases "stateOf cc = Open")
    case True
    with assms(3) have S: "statusCalls (responseWriter cc) = S"
      by (auto split: if_splits)
    show ?thesis
    proof (cases "commits a")
      case True
      have "carried a cc = 200" using assms(1,2) by (cases a) simp_all
      with step_open_commit(1,6) [OF True \<open>stateOf cc = Open\<close>] S show ?thesis by simp
    next
      case False
      with step_open_quiet(1,7) [OF False True] S show ?thesis by simp
    qed
  next
    case False
    with step_committed(1,6) [OF False, of a] assms(3) show ?thesis by auto
  qed
qed

lemma run_default_code:
  assumes "\<forall>a\<in>set pre. \<not> explicitCommit a" and "code cc = 200"
    and "(stateOf cc = Open \<and> statusCalls (responseWriter cc) = S)
       \<or> (stateOf cc = (if inBlocks (httpCodeRanges cc) 200 then Suppressed else PassThrough)
          \<and> statusCalls (responseWriter cc) =
              (if inBlocks (httpCodeRanges cc) 200 then S else S @ [SWriteHeader 200]))"
  shows "code (run pre cc) = 200 \<and> httpCodeRanges (run pre cc) = httpCodeRanges cc
    \<and> ((stateOf (run pre cc) = Open \<and> statusCalls (responseWriter (run pre cc)) = S)
       \<or> (stateOf (run pre cc) = (if inBlocks (httpCodeRanges cc) 200 then Suppressed else PassThrough)
          \<and> statusCalls (responseWriter (run pre cc)) =
              (if inBlocks (httpCodeRanges cc) 200 then S else S @ [SWriteHeader 200])))"
  using assms
proof (induction pre arbitrary: cc)
  case Nil
  then show ?case by (simp add: run_simps)
next
  case (Cons a pre)
  from Cons.prems have q: "\<not> explicitCommit a" and rest: "\<forall>b\<in>set pre. \<not> explicitCommit b"
    by simp_all
  note s = step_default_code [OF q Cons.prems(2) Cons.prems(3)]
  from Cons.IH [OF rest s(1) s(3) [folded s(2)]] show ?case by (simp add: s(2) run_simps)
qed

text \<open>
  C6. When the handler has made no explicit status commit and writes a body or
  flushes, the captured code is 200 after that call, the decision is the one for 200,
  and when 200 is not watched the sink has received the status commit 200 and no other.
\<close>

theorem implicit_commit_default:
  assumes "\<forall>a\<in>set pre. \<not> explicitCommit a" and "a = AWrite buf \<or> a = AFlush"
  shows "let cc = run (pre @ [a]) (newCodeCatcher rw rs)
         in getCode cc = 200
          \<and> stateOf cc = (if inBlocks rs 200 then Suppressed else PassThrough)
          \<and> statusCalls (responseWriter cc) =
              (if inBlocks rs 200 then statusCalls rw else statusCalls rw @ [SWriteHeader 200])"
proof -
  define cc0 where "cc0 = newCodeCatcher rw rs"
  have c0: "code cc0 = 200" and r0: "httpCodeRanges cc0 = rs" by (simp_all add: cc0_def new_open)
  have o: "(stateOf cc0 = Open \<and> statusCalls (responseWriter cc0) = statusCalls rw)
       \<or> (stateOf cc0 = (if inBlocks (httpCodeRanges cc0) 200 then Suppressed else PassThrough)
          \<and> statusCalls (responseWriter cc0) =
              (if inBlocks (httpCodeRanges cc0) 200 then statusCalls rw
               else statusCalls rw @ [SWriteHeader 200]))"
    by (simp add: cc0_def new_open)
  have all: "\<forall>b\<in>set (pre @ [a]). \<not> explicitCommit b" using assms by auto
  note p = run_default_code [OF all c0 o, unfolded r0]
  have m: "commits a" using assms(2) by auto
  have n: "stateOf (run (pre @ [a]) cc0) \<noteq> Open"
  proof (cases "stateOf (run pre cc0) = Open")
    case True
    from step_open_commit(1) [OF m True] show ?thesis by (simp add: run_simps)
  next
    case False
    from step_committed(1) [OF False, of a] False show ?thesis by (simp add: run_simps)
  qed
  from p n show ?thesis
    unfolding Let_def cc0_def [symmetric] by (auto simp: getCode_def)
qed

text \<open>C6 at a flush before any write, and at a write when 200 is watched.\<close>

theorem implicit_commit_default_witness:
  "getCode (run ([setHeader ''X-A'' ''1''] @ [AFlush]) (newCodeCatcher recorder [(401, 403)])) = 200
   \<and> calls (responseWriter (run ([setHeader ''X-A'' ''1''] @ [AFlush])
        (newCodeCatcher recorder [(401, 403)]))) = [SWriteHeader 200, SFlush]
   \<and> stateOf (run ([setHeader ''X-A'' ''1''] @ [AWrite ''body''])
        (newCodeCatcher recorder [(200, 299)])) = Suppressed"
proof -
  have h1: "\<forall>a\<in>set [setHeader ''X-A'' ''1'']. \<not> explicitCommit a" by (simp add: setHeader_def)
  have h2: "AFlush = AWrite [] \<or> AFlush = AFlush" by simp
  note t = implicit_commit_default [OF h1 h2, of recorder "[(401, 403)]", unfolded Let_def]
  from t have "getCode (run ([setHeader ''X-A'' ''1''] @ [AFlush]) (newCodeCatcher recorder [(401, 403)])) = 200"
    by blast
  moreover have "calls (responseWriter (run ([setHeader ''X-A'' ''1''] @ [AFlush])
        (newCodeCatcher recorder [(401, 403)]))) = [SWriteHeader 200, SFlush]"
    by code_simp
  moreover have "stateOf (run ([setHeader ''X-A'' ''1''] @ [AWrite ''body''])
        (newCodeCatcher recorder [(200, 299)])) = Suppressed"
    by code_simp
  ultimately show ?thesis by blast
qed

section \<open>The captured headers\<close>

lemma copyHeaders_values: "hvalues (copyHeaders dst src) k = hvalues dst k @ hvalues src k"
  by (simp add: copyHeaders_def hvalues_def split: option.splits)

lemma copyHeaders_dom: "dom (copyHeaders dst src) = dom dst \<union> dom src"
  by (auto simp: copyHeaders_def split: option.splits)

text \<open>
  C4, as the code has it. Let the handler make calls that commit nothing, then its
  first committing call, then any calls. Before the decision the header mutations of
  the handler are collected in the private map of the catcher and the header mapping
  of the sink is untouched. The committing call ends passing through or suppressed.
  When it passes through, the sink's header mapping becomes the copy of the private map
  into it: for every key the values the sink had, followed by the captured ones, and no
  key is lost. When it suppresses, the sink's header mapping stays as it was. After the
  decision, whichever it is, the header mutations of the handler still go to the
  private map, and the header mapping of the sink no longer changes.
\<close>

theorem captured_headers_flow:
  assumes "\<forall>a\<in>set pre. \<not> commits a" and "commits a"
  shows "let cc0 = newCodeCatcher rw rs;
             cc1 = run pre cc0;
             cc2 = step a cc1;
             cc3 = run post cc2;
             captured = fold headerEffect pre Map.empty
         in headerMap cc1 = captured
          \<and> sheader (responseWriter cc1) = sheader rw
          \<and> (stateOf cc2 = PassThrough \<or> stateOf cc2 = Suppressed)
          \<and> (stateOf cc2 = PassThrough \<longrightarrow>
                sheader (responseWriter cc2) = copyHeaders (sheader rw) captured)
          \<and> (stateOf cc2 = Suppressed \<longrightarrow> sheader (responseWriter cc2) = sheader rw)
          \<and> (\<forall>k. hvalues (copyHeaders (sheader rw) captured) k
                  = hvalues (sheader rw) k @ hvalues captured k)
          \<and> dom (copyHeaders (sheader rw) captured) = dom (sheader rw) \<union> dom captured
          \<and> sheader (responseWriter cc3) = sheader (responseWriter cc2)
          \<and> headerMap cc3 = fold headerEffect post captured"
proof -
  define cc0 where "cc0 = newCodeCatcher rw rs"
  define cc1 where "cc1 = run pre cc0"
  define cc2 where "cc2 = step a cc1"
  define captured where "captured = fold headerEffect pre Map.empty"
  have o: "stateOf cc0 = Open" by (simp add: cc0_def new_open)
  note p = run_open_quiet [OF assms(1) o, folded cc1_def]
  from p have o1: "stateOf cc1 = Open" by simp
  have h1: "headerMap cc1 = captured" using p by (simp add: cc0_def new_open captured_def)
  have s1: "sheader (responseWriter cc1) = sheader rw" using p by (simp add: cc0_def new_open)
  note c = step_open_commit [OF assms(2) o1, folded cc2_def]
  have n2: "stateOf cc2 \<noteq> Open" using c(1) by simp
  note r = run_committed [OF n2, of post]
  have a3: "stateOf cc2 = PassThrough \<or> stateOf cc2 = Suppressed" using c(1) by simp
  have a4: "stateOf cc2 = PassThrough \<longrightarrow>
      sheader (responseWriter cc2) = copyHeaders (sheader rw) captured"
    using c(1,5) h1 s1 by (simp split: if_splits)
  have a5: "stateOf cc2 = Suppressed \<longrightarrow> sheader (responseWriter cc2) = sheader rw"
    using c(1,5) s1 by (simp split: if_splits)
  have a8: "sheader (responseWriter (run post cc2)) = sheader (responseWriter cc2)"
    using r by simp
  have a9: "headerMap (run post cc2) = fold headerEffect post captured"
    using r c(4) h1 by simp
  show ?thesis
    unfolding Let_def cc0_def [symmetric] cc1_def [symmetric] cc2_def [symmetric]
      captured_def [symmetric]
    using h1 s1 a3 a4 a5 a8 a9 by (simp add: copyHeaders_values copyHeaders_dom)
qed

text \<open>C4 at a sink that already holds a value for \<^verbatim>\<open>Vary\<close>: the captured value is
  appended at the transition, the header set later is not in the sink's mapping.\<close>

theorem captured_headers_flow_witness:
  "sheader (responseWriter (run ([setHeader ''Vary'' ''Origin''] @ AWriteHeader 404 # [setHeader ''X-Late'' ''1''])
      (newCodeCatcher (recorder\<lparr>sheader := [''Vary'' \<mapsto> [''Accept'']]\<rparr>) [(401, 403)]))) ''Vary''
     = Some [''Accept'', ''Origin'']
   \<and> sheader (responseWriter (run ([setHeader ''Vary'' ''Origin''] @ AWriteHeader 404 # [setHeader ''X-Late'' ''1''])
      (newCodeCatcher (recorder\<lparr>sheader := [''Vary'' \<mapsto> [''Accept'']]\<rparr>) [(401, 403)]))) ''X-Late''
     = None"
proof -
  have h1: "\<forall>a\<in>set [setHeader ''Vary'' ''Origin'']. \<not> commits a" by (simp add: setHeader_def)
  have h2: "commits (AWriteHeader 404)" by simp
  note t = captured_headers_flow [OF h1 h2,
      where rw = "recorder\<lparr>sheader := [''Vary'' \<mapsto> [''Accept'']]\<rparr>" and rs = "[(401, 403)]"
        and post = "[setHeader ''X-Late'' ''1'']", unfolded Let_def]
  have p: "stateOf (step (AWriteHeader 404) (run [setHeader ''Vary'' ''Origin'']
      (newCodeCatcher (recorder\<lparr>sheader := [''Vary'' \<mapsto> [''Accept'']]\<rparr>) [(401, 403)]))) = PassThrough"
    by code_simp
  from t p have e: "sheader (responseWriter (run [setHeader ''X-Late'' ''1'']
      (step (AWriteHeader 404) (run [setHeader ''Vary'' ''Origin'']
        (newCodeCatcher (recorder\<lparr>sheader := [''Vary'' \<mapsto> [''Accept'']]\<rparr>) [(401, 403)])))))
     = copyHeaders (sheader (recorder\<lparr>sheader := [''Vary'' \<mapsto> [''Accept'']]\<rparr>))
         (fold headerEffect [setHeader ''Vary'' ''Origin''] Map.empty)"
    by metis
  have r: "run ([setHeader ''Vary'' ''Origin''] @ AWriteHeader 404 # [setHeader ''X-Late'' ''1''])
      (newCodeCatcher (recorder\<lparr>sheader := [''Vary'' \<mapsto> [''Accept'']]\<rparr>) [(401, 403)])
    = run [setHeader ''X-Late'' ''1'']
      (step (AWriteHeader 404) (run [setHeader ''Vary'' ''Origin'']
        (newCodeCatcher (recorder\<lparr>sheader := [''Vary'' \<mapsto> [''Accept'']]\<rparr>) [(401, 403)])))"
    by (simp only: run_simps)
  show ?thesis
    unfolding r e
    by (simp add: copyHeaders_def hvalues_def setHeader_def Header_Set_def recorder_def)
qed

text \<open>
  C4 as the specification states it fails: after the transition to passing through, a
  header set through the catcher is in the private map and not in the header mapping
  of the sink.
\<close>

theorem header_after_commit_counterexample:
  "stateOf (run [AWriteHeader 200, setHeader ''X-Late'' ''1''] (newCodeCatcher recorder [(401, 403)]))
     = PassThrough
   \<and> sheader (responseWriter (run [AWriteHeader 200, setHeader ''X-Late'' ''1'']
        (newCodeCatcher recorder [(401, 403)]))) ''X-Late'' = None
   \<and> headerMap (run [AWriteHeader 200, setHeader ''X-Late'' ''1'']
        (newCodeCatcher recorder [(401, 403)])) ''X-Late'' = Some [''1'']"
  by code_simp

section \<open>Flush\<close>

text \<open>Once the decision is taken, \<^verbatim>\<open>Flush\<close> looks at the sink only: it forwards the
  flush whenever the sink is a \<^verbatim>\<open>http.Flusher\<close>, in either state.\<close>

lemma Flush_committed:
  assumes "stateOf cc \<noteq> Open"
  shows "cc_Flush cc =
     (if flusher (responseWriter cc) then cc\<lparr>responseWriter := sink_Flush (responseWriter cc)\<rparr>
      else cc)"
  using assms by (simp add: cc_Flush_def committed_WriteHeader)

text \<open>
  C3 fails on the code. The handler answers 401, which is watched, and flushes: the
  catcher is suppressed, yet the sink receives the flush, before ServeHTTP commits the
  redirect.
\<close>

theorem Flush_reaches_sink_when_suppressed:
  "stateOf (run [AWriteHeader 401, AFlush] (newCodeCatcher recorder [(401, 403)])) = Suppressed
   \<and> calls (responseWriter (run [AWriteHeader 401, AFlush] (newCodeCatcher recorder [(401, 403)])))
       = [SFlush]
   \<and> calls (ServeHTTP (plugin [AWriteHeader 401, AFlush]) recorder getRequest)
       = [SFlush, SWriteHeader 302, SWrite ''Found'']"
  by code_simp

section \<open>ServeHTTP\<close>

lemma ServeHTTP_passed:
  "\<not> isFilteredCode (afterHandler r rw req) \<Longrightarrow>
     ServeHTTP r rw req = responseWriter (afterHandler r rw req)"
  by (simp add: ServeHTTP_def afterHandler_def Let_def)

lemma ServeHTTP_redirect:
  assumes "isFilteredCode (afterHandler r rw req)"
  shows "ServeHTTP r rw req =
    (case snd (fst (sink_Write (StatusText (redirectCode req)) (sinkAtBody r rw req))) of
       None \<Rightarrow> snd (sink_Write (StatusText (redirectCode req)) (sinkAtBody r rw req))
     | Some e \<Rightarrow> http_Error (snd (sink_Write (StatusText (redirectCode req)) (sinkAtBody r rw req)))
                  e StatusInternalServerError)"
  using assms
  by (simp add: ServeHTTP_def sinkAtBody_def afterHandler_def Let_def split_beta
      split: option.split)

lemma sinkAtBody_calls:
  "calls (sinkAtBody r rw req) =
     calls (responseWriter (afterHandler r rw req)) @ [SWriteHeader (redirectCode req)]"
  by (simp add: sinkAtBody_def sink_WriteHeader_def Let_def)


lemma http_Error_calls:
  "calls (http_Error w e c) = calls w @ [SWriteHeader c, SWrite (e @ [CHR 0x0A])]"
  by (simp add: http_Error_def sink_WriteHeader_def sink_Write_def Let_def)

lemma http_Error_header:
  "sheader (http_Error w e c) =
     (sheader w)(''Content-Type'' \<mapsto> [''text/plain; charset=utf-8''],
                 ''X-Content-Type-Options'' \<mapsto> [''nosniff''])"
  by (simp add: http_Error_def sink_WriteHeader_def sink_Write_def Header_Set_def Let_def)

lemma sink_Write_calls: "calls (snd (sink_Write buf w)) = calls w @ [SWrite buf]"
  by (simp add: sink_Write_def)


lemma redirect_phrase:
  "redirectCode req = (if Method req = ''GET'' then 302 else 307)"
  "StatusText (redirectCode req) = (if Method req = ''GET'' then ''Found'' else ''Temporary Redirect'')"
  by (simp_all add: redirectCode_def MethodGet_def StatusFound_def StatusTemporaryRedirect_def
      StatusText_def statusText_def)

lemma step_not_passing:
  assumes "stateOf cc \<noteq> PassThrough" and "stateOf (step a cc) \<noteq> PassThrough"
  shows "sheader (responseWriter (step a cc)) = sheader (responseWriter cc)"
    and "responseCalls (responseWriter (step a cc)) = responseCalls (responseWriter cc)"
  using assms
  by (cases a; simp add: cc_defs stateOf_def responseCalls_def Let_def split: if_splits)+

lemma step_passing: "stateOf cc = PassThrough \<Longrightarrow> stateOf (step a cc) = PassThrough"
  using step_committed(1) [of cc a] by simp

lemma run_passing: "stateOf cc = PassThrough \<Longrightarrow> stateOf (run acts cc) = PassThrough"
  using run_committed [of cc acts] by simp

lemma run_not_passing:
  assumes "stateOf (run acts cc) \<noteq> PassThrough"
  shows "sheader (responseWriter (run acts cc)) = sheader (responseWriter cc)
    \<and> responseCalls (responseWriter (run acts cc)) = responseCalls (responseWriter cc)"
  using assms
proof (induction acts arbitrary: cc)
  case Nil
  then show ?case by (simp add: run_simps)
next
  case (Cons a acts)
  from Cons.prems have f: "stateOf (run acts (step a cc)) \<noteq> PassThrough"
    by (simp add: run_simps)
  with run_passing [of "step a cc" acts] have s: "stateOf (step a cc) \<noteq> PassThrough" by auto
  with step_passing [of cc a] have c: "stateOf cc \<noteq> PassThrough" by auto
  from Cons.IH [OF f] step_not_passing [OF c s] show ?case by (simp add: run_simps)
qed

lemma suppressed_sink:
  assumes "isFilteredCode (afterHandler r rw req)"
  shows "sheader (responseWriter (afterHandler r rw req)) = sheader rw"
    and "responseCalls (responseWriter (afterHandler r rw req)) = responseCalls rw"
proof -
  from assms have "stateOf (afterHandler r rw req) \<noteq> PassThrough"
    by (simp add: stateOf_filtered)
  from run_not_passing [OF this [unfolded afterHandler_def]]
  show "sheader (responseWriter (afterHandler r rw req)) = sheader rw"
    and "responseCalls (responseWriter (afterHandler r rw req)) = responseCalls rw"
    by (simp_all add: afterHandler_def new_open)
qed

text \<open>
  C7. When the handler leaves the catcher suppressed, ServeHTTP commits 302 to the sink
  if the method of the request is GET and 307 otherwise, and then writes the reason
  phrase of that status (\<^verbatim>\<open>Found\<close>, \<^verbatim>\<open>Temporary Redirect\<close>) as the body: these two calls
  follow the calls that the sink had received when the handler returned, and they are
  the first status commit and the first body write that the sink receives for the
  request.
\<close>

theorem redirect_status_and_body:
  assumes "isFilteredCode (afterHandler r rw req)"
  shows "let st = (if Method req = ''GET'' then 302 else 307);
             phrase = (if Method req = ''GET'' then ''Found'' else ''Temporary Redirect'')
         in StatusText st = phrase
          \<and> prefix (calls (responseWriter (afterHandler r rw req)) @ [SWriteHeader st, SWrite phrase])
               (calls (ServeHTTP r rw req))
          \<and> prefix (responseCalls rw @ [SWriteHeader st, SWrite phrase])
               (responseCalls (ServeHTTP r rw req))"
proof -
  define st :: int where "st = (if Method req = ''GET'' then 302 else 307)"
  define phrase where "phrase = (if Method req = ''GET'' then ''Found'' else ''Temporary Redirect'')"
  define h where "h = responseWriter (afterHandler r rw req)"
  have rc: "redirectCode req = st"
    by (simp add: redirect_phrase(1) st_def)
  have ph: "StatusText (redirectCode req) = phrase"
    by (simp add: redirect_phrase(2) phrase_def)
  have tx: "StatusText st = phrase" using ph rc by simp
  have "\<exists>rest. calls (ServeHTTP r rw req) = calls h @ [SWriteHeader st, SWrite phrase] @ rest"
    unfolding ServeHTTP_redirect [OF assms] rc tx
    by (cases "snd (fst (sink_Write phrase (sinkAtBody r rw req)))")
      (simp_all add: http_Error_calls sink_Write_calls sinkAtBody_calls rc h_def)
  then obtain rest where
    c: "calls (ServeHTTP r rw req) = calls h @ [SWriteHeader st, SWrite phrase] @ rest"
    by blast
  have p1: "prefix (calls h @ [SWriteHeader st, SWrite phrase]) (calls (ServeHTTP r rw req))"
    unfolding c by simp
  have "responseCalls (ServeHTTP r rw req) =
      responseCalls h @ [SWriteHeader st, SWrite phrase] @ filter (\<lambda>c. isStatus c \<or> isBody c) rest"
    by (simp add: responseCalls_def c)
  then have p2: "prefix (responseCalls rw @ [SWriteHeader st, SWrite phrase])
      (responseCalls (ServeHTTP r rw req))"
    by (simp add: suppressed_sink(2) [OF assms, folded h_def])
  show ?thesis
    unfolding Let_def st_def [symmetric] phrase_def [symmetric] h_def [symmetric]
    using tx p1 p2 by simp
qed

text \<open>C7 at the repository's test (the handler answers 401 to a GET), and at a POST.\<close>

theorem redirect_status_and_body_witness:
  "prefix [SWriteHeader 302, SWrite ''Found'']
     (responseCalls (ServeHTTP (plugin [AWriteHeader 401]) recorder getRequest))
   \<and> calls (ServeHTTP (plugin [AWriteHeader 401]) recorder getRequest)
       = [SWriteHeader 302, SWrite ''Found'']
   \<and> calls (ServeHTTP (plugin [AWriteHeader 401]) recorder postRequest)
       = [SWriteHeader 307, SWrite ''Temporary Redirect'']"
proof -
  have h: "isFilteredCode (afterHandler (plugin [AWriteHeader 401]) recorder getRequest)"
    by code_simp
  have m: "Method getRequest = ''GET''" by (simp add: getRequest_def)
  have e: "responseCalls recorder = []" by (simp add: responseCalls_def recorder_def)
  from redirect_status_and_body [OF h, unfolded Let_def]
  have "prefix [SWriteHeader 302, SWrite ''Found'']
     (responseCalls (ServeHTTP (plugin [AWriteHeader 401]) recorder getRequest))"
    by (simp add: m e)
  moreover have "calls (ServeHTTP (plugin [AWriteHeader 401]) recorder getRequest)
       = [SWriteHeader 302, SWrite ''Found'']"
    by code_simp
  moreover have "calls (ServeHTTP (plugin [AWriteHeader 401]) recorder postRequest)
       = [SWriteHeader 307, SWrite ''Temporary Redirect'']"
    by code_simp
  ultimately show ?thesis by blast
qed



text \<open>
  C9, as the code has it. When the handler leaves the catcher suppressed and the write
  of the redirect body returns an error, ServeHTTP returns normally after
  \<^verbatim>\<open>http.Error\<close>: following that write, the sink receives the status commit 500 and one
  write of the error's message followed by a line feed, with the content type set to
  plain text.
\<close>

theorem write_error_fallback:
  assumes "isFilteredCode (afterHandler r rw req)"
    and "snd (fst (sink_Write (StatusText (redirectCode req)) (sinkAtBody r rw req))) = Some e"
  shows "calls (ServeHTTP r rw req) =
           calls (sinkAtBody r rw req)
             @ [SWrite (StatusText (redirectCode req)), SWriteHeader 500, SWrite (e @ [CHR 0x0A])]
       \<and> sheader (ServeHTTP r rw req) ''Content-Type'' = Some [''text/plain; charset=utf-8'']
       \<and> sheader (ServeHTTP r rw req) ''X-Content-Type-Options'' = Some [''nosniff'']"
  unfolding ServeHTTP_redirect [OF assms(1)]
  by (simp add: assms(2) http_Error_calls http_Error_header sink_Write_calls
      StatusInternalServerError_def)

text \<open>C9 at the repository's test over a sink whose writes fail.\<close>

theorem write_error_fallback_witness:
  "calls (ServeHTTP (plugin [AWriteHeader 401]) brokenPipe getRequest)
     = [SWriteHeader 302, SWrite ''Found'', SWriteHeader 500, SWrite (''broken pipe'' @ [CHR 0x0A])]"
proof -
  have h: "isFilteredCode (afterHandler (plugin [AWriteHeader 401]) brokenPipe getRequest)"
    by code_simp
  have w: "snd (fst (sink_Write (StatusText (redirectCode getRequest))
      (sinkAtBody (plugin [AWriteHeader 401]) brokenPipe getRequest))) = Some ''broken pipe''"
    by code_simp
  have c: "calls (sinkAtBody (plugin [AWriteHeader 401]) brokenPipe getRequest) = [SWriteHeader 302]"
    by code_simp
  have p: "StatusText (redirectCode getRequest) = ''Found''"
    by code_simp
  from write_error_fallback [OF h w] show ?thesis
    by (simp add: c p)
qed

text \<open>
  C9 as the specification states it fails: the body written with the 500 is not the
  error's message, no write of the sink carries just the message; the last write is
  the message and a line feed.
\<close>

theorem write_error_body_counterexample:
  "SWrite ''broken pipe'' \<notin> set (calls (ServeHTTP (plugin [AWriteHeader 401]) brokenPipe getRequest))
   \<and> last (calls (ServeHTTP (plugin [AWriteHeader 401]) brokenPipe getRequest))
       = SWrite (''broken pipe'' @ [CHR 0x0A])"
  by code_simp

lemma step_quiet_sink:
  assumes "\<not> commits a"
  shows "\<exists>ctl. set ctl \<subseteq> {SHijack, SCloseNotify}
     \<and> responseWriter (step a cc) = (responseWriter cc)\<lparr>calls := calls (responseWriter cc) @ ctl\<rparr>"
proof (cases a)
  case (AHeader f)
  then have "set [] \<subseteq> {SHijack, SCloseNotify}
     \<and> responseWriter (step a cc) = (responseWriter cc)\<lparr>calls := calls (responseWriter cc) @ []\<rparr>"
    by (simp add: cc_defs)
  then show ?thesis by blast
next
  case AHijack
  then have "(set [] \<subseteq> {SHijack, SCloseNotify}
     \<and> responseWriter (step a cc) = (responseWriter cc)\<lparr>calls := calls (responseWriter cc) @ []\<rparr>)
    \<or> (set [SHijack] \<subseteq> {SHijack, SCloseNotify}
     \<and> responseWriter (step a cc) = (responseWriter cc)\<lparr>calls := calls (responseWriter cc) @ [SHijack]\<rparr>)"
    by (simp add: cc_defs)
  then show ?thesis by blast
next
  case ACloseNotify
  then have "(set [] \<subseteq> {SHijack, SCloseNotify}
     \<and> responseWriter (step a cc) = (responseWriter cc)\<lparr>calls := calls (responseWriter cc) @ []\<rparr>)
    \<or> (set [SCloseNotify] \<subseteq> {SHijack, SCloseNotify}
     \<and> responseWriter (step a cc) = (responseWriter cc)\<lparr>calls := calls (responseWriter cc) @ [SCloseNotify]\<rparr>)"
    by (simp add: cc_defs)
  then show ?thesis by blast
qed (use assms in simp_all)

lemma run_quiet_sink:
  assumes "\<forall>a\<in>set acts. \<not> commits a"
  shows "\<exists>ctl. set ctl \<subseteq> {SHijack, SCloseNotify}
     \<and> responseWriter (run acts cc) = (responseWriter cc)\<lparr>calls := calls (responseWriter cc) @ ctl\<rparr>"
  using assms
proof (induction acts arbitrary: cc)
  case Nil
  have "set [] \<subseteq> {SHijack, SCloseNotify}
     \<and> responseWriter (run [] cc) = (responseWriter cc)\<lparr>calls := calls (responseWriter cc) @ []\<rparr>"
    by (simp add: run_simps)
  then show ?case by blast
next
  case (Cons a acts)
  from Cons.prems have q: "\<not> commits a" and rest: "\<forall>b\<in>set acts. \<not> commits b" by simp_all
  from step_quiet_sink [OF q, of cc] obtain c1 where
    c1: "set c1 \<subseteq> {SHijack, SCloseNotify}"
      "responseWriter (step a cc) = (responseWriter cc)\<lparr>calls := calls (responseWriter cc) @ c1\<rparr>"
    by blast
  from Cons.IH [OF rest, of "step a cc"] obtain c2 where
    c2: "set c2 \<subseteq> {SHijack, SCloseNotify}"
      "responseWriter (run acts (step a cc)) =
         (responseWriter (step a cc))\<lparr>calls := calls (responseWriter (step a cc)) @ c2\<rparr>"
    by blast
  have "set (c1 @ c2) \<subseteq> {SHijack, SCloseNotify}
     \<and> responseWriter (run (a # acts) cc) = (responseWriter cc)\<lparr>calls := calls (responseWriter cc) @ (c1 @ c2)\<rparr>"
    using c1 c2 by (simp add: run_simps)
  then show ?case by blast
qed

text \<open>
  C10. When the handler returns without a status commit, a body write or a flush on
  the catcher, ServeHTTP leaves the sink as it got it, up to the hijack and
  close-notify calls that the handler made through the catcher: the header mapping is
  the same (so no \<^verbatim>\<open>Location\<close>), and the sink has received no status commit, no body
  write and no flush. This holds for every configuration, also when 200 is watched.
\<close>

theorem silent_handler_writes_nothing:
  assumes "\<forall>a\<in>set (next_handler r req). \<not> commits a"
  shows "(\<exists>ctl. set ctl \<subseteq> {SHijack, SCloseNotify}
            \<and> ServeHTTP r rw req = rw\<lparr>calls := calls rw @ ctl\<rparr>)
       \<and> sheader (ServeHTTP r rw req) = sheader rw
       \<and> responseCalls (ServeHTTP r rw req) = responseCalls rw
       \<and> filter (\<lambda>c. c = SFlush) (calls (ServeHTTP r rw req)) = filter (\<lambda>c. c = SFlush) (calls rw)"
proof -
  have o: "stateOf (newCodeCatcher rw (codeRanges r)) = Open" by (simp add: new_open)
  from run_open_quiet [OF assms o] have "stateOf (afterHandler r rw req) = Open"
    by (simp add: afterHandler_def)
  then have "\<not> isFilteredCode (afterHandler r rw req)" by (simp add: stateOf_filtered)
  note s = ServeHTTP_passed [OF this]
  from run_quiet_sink [OF assms, of "newCodeCatcher rw (codeRanges r)"] obtain ctl where
    c: "set ctl \<subseteq> {SHijack, SCloseNotify}" "ServeHTTP r rw req = rw\<lparr>calls := calls rw @ ctl\<rparr>"
    unfolding s afterHandler_def by (auto simp: new_open)
  have f: "filter (\<lambda>c. isStatus c \<or> isBody c) ctl = []" "filter (\<lambda>c. c = SFlush) ctl = []"
    using c(1) by (auto simp: filter_empty_conv)
  from c f show ?thesis by (auto simp: responseCalls_def)
qed

text \<open>C10 at a handler that only sets a header, under a configuration that watches
  200 to 299.\<close>

theorem silent_handler_writes_nothing_witness:
  "sheader (ServeHTTP ((plugin [setHeader ''X-A'' ''1''])\<lparr>codeRanges := [(200, 299)]\<rparr>)
      recorder getRequest) ''Location'' = None
   \<and> responseCalls (ServeHTTP ((plugin [setHeader ''X-A'' ''1''])\<lparr>codeRanges := [(200, 299)]\<rparr>)
      recorder getRequest) = []
   \<and> calls (ServeHTTP ((plugin [setHeader ''X-A'' ''1''])\<lparr>codeRanges := [(200, 299)]\<rparr>)
      recorder getRequest) = []"
proof -
  have h: "\<forall>a\<in>set (next_handler ((plugin [setHeader ''X-A'' ''1''])\<lparr>codeRanges := [(200, 299)]\<rparr>)
      getRequest). \<not> commits a"
    by (simp add: plugin_def setHeader_def)
  note t = silent_handler_writes_nothing [OF h, of recorder]
  from t have "sheader (ServeHTTP ((plugin [setHeader ''X-A'' ''1''])\<lparr>codeRanges := [(200, 299)]\<rparr>)
      recorder getRequest) = sheader recorder"
    by blast
  then have "sheader (ServeHTTP ((plugin [setHeader ''X-A'' ''1''])\<lparr>codeRanges := [(200, 299)]\<rparr>)
      recorder getRequest) ''Location'' = None"
    by (simp add: recorder_def)
  moreover from t have "responseCalls (ServeHTTP ((plugin [setHeader ''X-A'' ''1''])\<lparr>codeRanges := [(200, 299)]\<rparr>)
      recorder getRequest) = responseCalls recorder"
    by blast
  then have "responseCalls (ServeHTTP ((plugin [setHeader ''X-A'' ''1''])\<lparr>codeRanges := [(200, 299)]\<rparr>)
      recorder getRequest) = []"
    by (simp add: recorder_def responseCalls_def)
  moreover have "calls (ServeHTTP ((plugin [setHeader ''X-A'' ''1''])\<lparr>codeRanges := [(200, 299)]\<rparr>)
      recorder getRequest) = []"
    by code_simp
  ultimately show ?thesis by blast
qed

end
